theory Spec2Isabelle
  imports Complex_Main "HOL-Library.Sublist" "HOL-Library.Log_Nat"
begin

section \<open>Data model (services/models.py)\<close>

text \<open>
  The pydantic models of the repository. A Python \<open>str\<close> is a \<open>string\<close>, a sequence of
  characters with code points below 256; the \<open>url\<close> of a
  post is declared \<open>HttpUrl | str\<close> and every use in the code goes through \<open>str(...)\<close> or
  string comparison, so it is a \<open>string\<close> here. A failure that Python reports by raising
  is the left summand of a sum type, carrying the message \<open>str(e)\<close>.
\<close>

type_synonym error = string

datatype Source = Linkedin | Reddit | X

record Post =
  source :: Source
  title :: string
  url :: string
  snippet :: string
  ts :: "string option"

record JudgeItem =
  j_url :: string
  j_keep :: bool
  j_reason :: string

record SearchReq =
  topic :: string
  queries :: "string list"
  per_query :: int

text \<open>The dictionaries \<open>{"title": .., "snippet": .., "url": ..}\<close> handed to the filter.\<close>

record Item =
  i_title :: string
  i_snippet :: string
  i_url :: string


section \<open>Python string primitives used by the code\<close>

text \<open>\<open>s.split(sep)\<close> for a one-character separator: never empty, \<open>[0]\<close> is the part
  before the first separator.\<close>

fun split_on :: "char \<Rightarrow> string \<Rightarrow> string list" where
  "split_on sep [] = [[]]"
| "split_on sep (c # cs) =
     (if c = sep then [] # split_on sep cs
      else (c # hd (split_on sep cs)) # tl (split_on sep cs))"

text \<open>\<open>s.split()\<close> without argument: the maximal runs of non-whitespace characters.
  Among the code points below 256 Python's whitespace is 9 to 13, 28 to 31, the space,
  133 (next line) and 160 (no-break space). \<open>cur\<close> is the run being read.\<close>

definition is_space :: "char \<Rightarrow> bool" where
  "is_space c = (of_char c \<in> {9, 10, 11, 12, 13, 28, 29, 30, 31, 32, 133, 160 :: nat})"

fun split_ws_loop :: "string \<Rightarrow> string \<Rightarrow> string list" where
  "split_ws_loop cur [] = (if cur = [] then [] else [cur])"
| "split_ws_loop cur (c # cs) =
     (if is_space c then (if cur = [] then split_ws_loop [] cs else cur # split_ws_loop [] cs)
      else split_ws_loop (cur @ [c]) cs)"

definition split_ws :: "string \<Rightarrow> string list" where
  "split_ws s = split_ws_loop [] s"

text \<open>\<open>s.lower()\<close>: among the code points below 256 the upper-case letters are 65 to 90
  (A to Z), 192 to 214 and 216 to 222; each has its lower-case letter 32 places further.
  Every other character is unchanged.\<close>

definition lower_char :: "char \<Rightarrow> char" where
  "lower_char c =
     (let n = (of_char c :: nat) in
      if (65 \<le> n \<and> n \<le> 90) \<or> (192 \<le> n \<and> n \<le> 214) \<or> (216 \<le> n \<and> n \<le> 222)
      then char_of (n + 32) else c)"

definition lower :: "string \<Rightarrow> string" where
  "lower s = map lower_char s"

text \<open>Python's \<open>a in b\<close> on strings is \<^term>\<open>sublist a b\<close>: \<open>b\<close> has \<open>a\<close> as a contiguous
  part.\<close>


section \<open>Python floats\<close>

text \<open>
  A Python float is an IEEE double. A finite double is modelled by the rational number it
  denotes, and an operation by the exact operation followed by rounding to the nearest
  number with a 53-bit significand, ties to the even significand. The scores of the ranker
  are sums of a few bounded terms, far from overflow and from the subnormal range, so the
  exponent is left unbounded. A literal such as \<open>0.8\<close> is \<open>round_double 0.8\<close>.
\<close>

type_synonym double = rat

definition pow2 :: "int \<Rightarrow> rat" where
  "pow2 e = (if 0 \<le> e then 2 ^ nat e else 1 / 2 ^ nat (- e))"

definition round_half_even :: "rat \<Rightarrow> int" where
  "round_half_even r =
     (let m = \<lfloor>r\<rfloor>; f = r - of_int m
      in if f < 1 / 2 then m
         else if 1 / 2 < f then m + 1
         else if even m then m else m + 1)"

text \<open>\<open>lg\<close> is the integer part of the binary logarithm of \<open>\<bar>q\<bar>\<close>: the quotient of two
  numbers with \<open>bitlen a\<close> and \<open>bitlen b\<close> binary digits lies between \<open>2 ^ (k - 1)\<close> and
  \<open>2 ^ (k + 1)\<close> for \<open>k = bitlen a - bitlen b\<close>.\<close>

definition round_double :: "rat \<Rightarrow> double" where
  "round_double q =
     (if q = 0 then 0
      else
        (let a = fst (quotient_of \<bar>q\<bar>);
             b = snd (quotient_of \<bar>q\<bar>);
             k = bitlen a - bitlen b;
             lg = (if pow2 k \<le> \<bar>q\<bar> then k else k - 1);
             e = lg - 52
         in sgn q * of_int (round_half_even (\<bar>q\<bar> / pow2 e)) * pow2 e))"

definition fadd :: "double \<Rightarrow> double \<Rightarrow> double" where
  "fadd a b = round_double (a + b)"

definition fsub :: "double \<Rightarrow> double \<Rightarrow> double" where
  "fsub a b = round_double (a - b)"

definition fmul :: "double \<Rightarrow> double \<Rightarrow> double" where
  "fmul a b = round_double (a * b)"

text \<open>\<open>a / b\<close> for two Python ints: the correctly rounded quotient.\<close>

definition int_truediv :: "int \<Rightarrow> int \<Rightarrow> double" where
  "int_truediv a b = round_double (of_int a / of_int b)"


section \<open>Deduplicator (services/utils.py)\<close>

text \<open>
  \<open>dedupe_by_url\<close>: the loop over \<open>items\<close> with its two variables, the set \<open>seen\<close> and the
  list \<open>out\<close>. The key of an item is \<open>str(i.url).split("?")[0]\<close>.
\<close>

definition identity_key :: "string \<Rightarrow> string" where
  "identity_key u = hd (split_on (CHR ''?'') u)"

fun dedupe_loop :: "Post list \<Rightarrow> string set \<Rightarrow> Post list \<Rightarrow> Post list" where
  "dedupe_loop [] seen out = out"
| "dedupe_loop (i # items) seen out =
     (let key = identity_key (url i) in
      if key \<notin> seen then dedupe_loop items (insert key seen) (out @ [i])
      else dedupe_loop items seen out)"

definition dedupe_by_url :: "Post list \<Rightarrow> Post list" where
  "dedupe_by_url items = dedupe_loop items {} []"


section \<open>Result mixer (services/search.py)\<close>

text \<open>
  The body of \<open>SearchAllApis\<close> after the three fetches: \<open>for i in range(max_len)\<close> with the
  three guarded appends to \<open>mixed_results\<close>.
\<close>

definition mix_step :: "'a list \<Rightarrow> 'a list \<Rightarrow> 'a list \<Rightarrow> 'a list \<Rightarrow> nat \<Rightarrow> 'a list" where
  "mix_step rd li x mixed_results i =
     (let m1 = (if i < length rd then mixed_results @ [rd ! i] else mixed_results);
          m2 = (if i < length li then m1 @ [li ! i] else m1)
      in (if i < length x then m2 @ [x ! i] else m2))"

definition mixed_results :: "'a list \<Rightarrow> 'a list \<Rightarrow> 'a list \<Rightarrow> 'a list" where
  "mixed_results rd li x =
     (let max_len = max (length rd) (max (length li) (length x))
      in foldl (mix_step rd li x) [] [0 ..< max_len])"

text \<open>\<open>searchXApi\<close> is a placeholder that returns the empty list.\<close>

definition searchXApi :: "string list \<Rightarrow> int \<Rightarrow> error + Post list" where
  "searchXApi qs n = Inr []"

text \<open>
  \<open>SearchAllApis\<close>. The reddit and linkedin fetches call the web search service; they are
  parameters here, and each either raises or returns its posts.
\<close>

definition SearchAllApis ::
  "(string list \<Rightarrow> int \<Rightarrow> error + Post list) \<Rightarrow> (string list \<Rightarrow> int \<Rightarrow> error + Post list)
    \<Rightarrow> string list \<Rightarrow> int \<Rightarrow> error + Post list" where
  "SearchAllApis searchRedditApi searchLinkedInApi qs n =
     (case searchRedditApi qs (n * 2) of Inl e \<Rightarrow> Inl e
      | Inr rd \<Rightarrow>
     (case searchLinkedInApi qs n of Inl e \<Rightarrow> Inl e
      | Inr li \<Rightarrow>
     (case searchXApi qs n of Inl e \<Rightarrow> Inl e
      | Inr x \<Rightarrow> Inr (mixed_results rd li x))))"


section \<open>Heuristic intent ranker (services/rank.py)\<close>

text \<open>
  Scores are Python floats. The clock and the ISO date parser are the parameter
  \<open>days_old\<close>: for the text of a timestamp it gives the age in whole days at the (fixed)
  current moment, a Python int, or \<open>None\<close> where the \<open>try\<close> block raises.
  \<open>heuristic_intent_score\<close> has four blocks, each of which updates \<open>score\<close>; they are
  named here.
\<close>

definition buying_signals :: "string list" where
  "buying_signals =
     [''our company'', ''our team'', ''we need'', ''looking for'',
      ''recommend'', '' vs '', ''alternative'', ''switching from'',
      ''for our'', ''enterprise'', ''business'', ''comparing'',
      ''evaluation'', ''migrating'', ''replacing our'']"

text \<open>Source quality, from \<open>score = 0.0\<close>.\<close>

definition score_source :: "Post \<Rightarrow> double" where
  "score_source post =
     (let url_str = lower (url post) in
      if sublist ''reddit.com'' url_str then fadd 0 (round_double 1.5)
      else if sublist ''linkedin.com'' url_str then fadd 0 (round_double 1.0)
      else if sublist ''x.com'' url_str \<or> sublist ''twitter.com'' url_str
           then fadd 0 (round_double 0.7)
      else 0)"

text \<open>Recency boost: \<open>score += max(0, 2.0 * (1 - days_old / 180))\<close> when the timestamp is
  present, not empty, parses, and is less than 180 days old.\<close>

definition score_recency :: "(string \<Rightarrow> int option) \<Rightarrow> Post \<Rightarrow> double \<Rightarrow> double" where
  "score_recency days_old post score =
     (case ts post of
        None \<Rightarrow> score
      | Some t \<Rightarrow>
          if t = [] then score
          else (case days_old t of
                  None \<Rightarrow> score
                | Some d \<Rightarrow>
                    if d < 180
                    then fadd score
                           (max 0 (fmul (round_double 2.0) (fsub 1 (int_truediv d 180))))
                    else score))"

text \<open>The body of \<open>for term in query_terms\<close>.\<close>

definition term_step :: "string \<Rightarrow> string \<Rightarrow> double \<Rightarrow> string \<Rightarrow> double" where
  "term_step title_l snippet_l score term =
     (let term_lower = lower term;
          s1 = (if sublist term_lower title_l then fadd score (round_double 0.8) else score)
      in (if sublist term_lower snippet_l then fadd s1 (round_double 0.4) else s1))"

text \<open>Buying intent keywords boost: the first signal found adds 0.5 and ends the loop.\<close>

definition score_buying :: "string \<Rightarrow> string \<Rightarrow> double \<Rightarrow> double" where
  "score_buying title_l snippet_l score =
     (let combined_text = title_l @ '' '' @ snippet_l in
      if \<exists>signal \<in> set buying_signals. sublist signal combined_text
      then fadd score (round_double 0.5) else score)"

definition heuristic_intent_score ::
  "(string \<Rightarrow> int option) \<Rightarrow> Post \<Rightarrow> string list \<Rightarrow> double" where
  "heuristic_intent_score days_old post query_terms =
     (let score1 = score_source post;
          score2 = score_recency days_old post score1;
          title_l = lower (title post);
          snippet_l = lower (snippet post);
          score3 = foldl (term_step title_l snippet_l) score2 query_terms
      in score_buying title_l snippet_l score3)"

text \<open>\<open>xs[:n]\<close> for a Python int \<open>n\<close>: a negative bound counts from the end.\<close>

definition slice_to :: "int \<Rightarrow> 'a list \<Rightarrow> 'a list" where
  "slice_to n xs =
     (if 0 \<le> n then take (nat n) xs else take (length xs - nat (- n)) xs)"

text \<open>
  \<open>list.sort(key=..., reverse=True)\<close>: the list is reversed, sorted by a stable ascending
  sort, and reversed again.
\<close>

definition sort_reverse :: "('a \<Rightarrow> 'k::linorder) \<Rightarrow> 'a list \<Rightarrow> 'a list" where
  "sort_reverse key xs = rev (sort_key key (rev xs))"

definition query_terms_of :: "string list \<Rightarrow> string list" where
  "query_terms_of qs = concat (map (\<lambda>q. split_ws (lower q)) qs)"

definition rank_posts_by_intent ::
  "(string \<Rightarrow> int option) \<Rightarrow> Post list \<Rightarrow> string list \<Rightarrow> int \<Rightarrow> Post list" where
  "rank_posts_by_intent days_old posts qs top_n =
     (let query_terms = query_terms_of qs;
          scored_posts = map (\<lambda>post. (heuristic_intent_score days_old post query_terms, post)) posts
      in map snd (slice_to top_n (sort_reverse fst scored_posts)))"


section \<open>Semantic filter (services/llm.py)\<close>

text \<open>The values \<open>json.loads\<close> returns.\<close>

datatype json =
  JNull | JBool bool | JNum real | JStr string | JArr "json list" | JObj "(string \<times> json) list"

text \<open>
  \<open>JudgeItem(**d)\<close>: unpacking raises unless \<open>d\<close> is a dictionary; the validation of the
  keyword arguments is pydantic's and is the parameter \<open>validate\<close> (\<open>None\<close> where it
  raises).
\<close>

definition JudgeItem_from ::
  "((string \<times> json) list \<Rightarrow> JudgeItem option) \<Rightarrow> json \<Rightarrow> JudgeItem option" where
  "JudgeItem_from validate d = (case d of JObj kvs \<Rightarrow> validate kvs | _ \<Rightarrow> None)"

text \<open>\<open>for d in v\<close> on a JSON value: a list gives its elements, a dictionary its keys, a
  string its characters; anything else is not iterable.\<close>

definition iterate :: "json \<Rightarrow> json list option" where
  "iterate v =
     (case v of
        JArr ds \<Rightarrow> Some ds
      | JObj kvs \<Rightarrow> Some (map (\<lambda>kv. JStr (fst kv)) kvs)
      | JStr s \<Rightarrow> Some (map (\<lambda>c. JStr [c]) s)
      | _ \<Rightarrow> None)"

definition judge_each ::
  "((string \<times> json) list \<Rightarrow> JudgeItem option) \<Rightarrow> json \<Rightarrow> JudgeItem list option" where
  "judge_each validate v =
     (case iterate v of None \<Rightarrow> None
      | Some ds \<Rightarrow> those (map (JudgeItem_from validate) ds))"

text \<open>The body of the \<open>try\<close> block; \<open>None\<close> when anything in it raises.\<close>

definition parse_judged ::
  "(string \<Rightarrow> json option) \<Rightarrow> ((string \<times> json) list \<Rightarrow> JudgeItem option)
    \<Rightarrow> string \<Rightarrow> JudgeItem list option" where
  "parse_judged json_loads validate text =
     (case json_loads text of
        None \<Rightarrow> None
      | Some data \<Rightarrow>
          (case data of
             JArr ds \<Rightarrow> judge_each validate data
           | JObj kvs \<Rightarrow>
               (case map_of kvs ''results'' of
                  Some r \<Rightarrow> judge_each validate r
                | None \<Rightarrow>
               (case map_of kvs ''items'' of
                  Some r \<Rightarrow> judge_each validate r
                | None \<Rightarrow>
                    if map_of kvs ''url'' \<noteq> None \<and> map_of kvs ''keep'' \<noteq> None
                    then map_option (\<lambda>j. [j]) (JudgeItem_from validate data)
                    else Some []))
           | _ \<Rightarrow> Some []))"

text \<open>The \<open>except\<close> branch: every item is kept.\<close>

definition keep_all :: "Item list \<Rightarrow> JudgeItem list" where
  "keep_all items =
     map (\<lambda>item. \<lparr>j_url = i_url item, j_keep = True,
                   j_reason = ''Filter failed, keeping all''\<rparr>) items"

text \<open>
  \<open>llmFilterPosts\<close>. \<open>responses\<close> is the outcome of \<open>await _responses(...)\<close>, which stands
  before the \<open>try\<close>: when it raises, so does the filter.
\<close>

definition llmFilterPosts ::
  "(string \<Rightarrow> json option) \<Rightarrow> ((string \<times> json) list \<Rightarrow> JudgeItem option)
    \<Rightarrow> error + string \<Rightarrow> Item list \<Rightarrow> error + JudgeItem list" where
  "llmFilterPosts json_loads validate responses items =
     (case responses of
        Inl e \<Rightarrow> Inl e
      | Inr text \<Rightarrow>
          (case parse_judged json_loads validate text of
             Some judged \<Rightarrow> Inr judged
           | None \<Rightarrow> Inr (keep_all items)))"


section \<open>Search orchestration (main.py)\<close>

text \<open>The end of \<open>search\<close>, from \<open>keep = {j.url for j in judged if j.keep}\<close> on.\<close>

definition keep_urls :: "JudgeItem list \<Rightarrow> string set" where
  "keep_urls judged = set (map j_url (filter j_keep judged))"

definition assemble :: "Post list \<Rightarrow> JudgeItem list \<Rightarrow> Post list" where
  "assemble top_candidates judged =
     (let keep = keep_urls judged in
      if keep = {} then take 3 top_candidates
      else take 15 (filter (\<lambda>p. url p \<in> keep) top_candidates))"

definition item_of :: "Post \<Rightarrow> Item" where
  "item_of p = \<lparr>i_title = title p, i_snippet = snippet p, i_url = url p\<rparr>"

text \<open>
  The collaborators of a request: the two fetches, the clock, the language model's answer
  to the filter prompt (or the failure of that call), and the two library parsers.
\<close>

record World =
  searchRedditApi :: "string list \<Rightarrow> int \<Rightarrow> error + Post list"
  searchLinkedInApi :: "string list \<Rightarrow> int \<Rightarrow> error + Post list"
  days_old :: "string \<Rightarrow> int option"
  responses :: "string \<Rightarrow> Item list \<Rightarrow> error + string"
  json_loads :: "string \<Rightarrow> json option"
  validate :: "(string \<times> json) list \<Rightarrow> JudgeItem option"

text \<open>\<open>search\<close>: \<open>Inl\<close> is the \<open>HTTPException(500, str(e))\<close> of the \<open>except\<close> branch.\<close>

definition search :: "World \<Rightarrow> SearchReq \<Rightarrow> error + Post list" where
  "search w req =
     (case SearchAllApis (searchRedditApi w) (searchLinkedInApi w) (queries req) (per_query req) of
        Inl e \<Rightarrow> Inl e
      | Inr posts \<Rightarrow>
          (let unique = dedupe_by_url posts in
           if unique = [] then Inr []
           else
             (let top_candidates = rank_posts_by_intent (days_old w) unique (queries req) 60 in
              case llmFilterPosts (json_loads w) (validate w)
                     (responses w (topic req) (map item_of top_candidates))
                     (map item_of top_candidates) of
                Inl e \<Rightarrow> Inl e
              | Inr judged \<Rightarrow> Inr (assemble top_candidates judged))))"


section \<open>Concrete inputs for the examples\<close>

text \<open>A post with the given url whose title and snippet match no query term and no
  buying signal, and which has no timestamp.\<close>

definition plain_post :: "string \<Rightarrow> Post" where
  "plain_post u = \<lparr>source = Linkedin, title = ''note'', url = u, snippet = ''text'', ts = None\<rparr>"

definition dated_post :: "string \<Rightarrow> string \<Rightarrow> Post" where
  "dated_post u t = \<lparr>source = Reddit, title = ''note'', url = u, snippet = ''text'', ts = Some t\<rparr>"


text \<open>Two frozen clocks that agree on the one timestamp the examples use, which is 90
  days old.\<close>

definition no_clock :: "string \<Rightarrow> int option" where
  "no_clock t = None"

definition clock_a :: "string \<Rightarrow> int option" where
  "clock_a t = (if t = ''2026-01-01T00:00:00Z'' then Some 90 else None)"

definition clock_b :: "string \<Rightarrow> int option" where
  "clock_b t = (if t = ''2026-01-01T00:00:00Z'' then Some 90 else Some 0)"

text \<open>A validator for the examples: a string \<open>url\<close>, a boolean \<open>keep\<close>, a string
  \<open>reason\<close>; other keys are ignored.\<close>

definition validate_exact :: "(string \<times> json) list \<Rightarrow> JudgeItem option" where
  "validate_exact kvs =
     (case (map_of kvs ''url'', map_of kvs ''keep'', map_of kvs ''reason'') of
        (Some (JStr u), Some (JBool k), Some (JStr r)) \<Rightarrow>
          Some \<lparr>j_url = u, j_keep = k, j_reason = r\<rparr>
      | _ \<Rightarrow> None)"

definition loads_fails :: "string \<Rightarrow> json option" where
  "loads_fails s = None"

definition loads_gives :: "json \<Rightarrow> string \<Rightarrow> json option" where
  "loads_gives v s = Some v"

definition four_posts :: "Post list" where
  "four_posts = [plain_post ''http://a.co/1'', plain_post ''http://a.co/2'',
                 plain_post ''http://a.co/3'', plain_post ''http://a.co/4'']"

text \<open>A world in which reddit returns \<^const>\<open>four_posts\<close>, linkedin nothing, and the
  language model call has the given outcome.\<close>

definition example_world :: "error + string \<Rightarrow> (string \<Rightarrow> json option) \<Rightarrow> World" where
  "example_world reply loads =
     \<lparr>searchRedditApi = (\<lambda>qs n. Inr four_posts),
      searchLinkedInApi = (\<lambda>qs n. Inr []),
      days_old = no_clock,
      responses = (\<lambda>t items. reply),
      json_loads = loads,
      validate = validate_exact\<rparr>"

definition example_req :: SearchReq where
  "example_req = \<lparr>topic = ''crm'', queries = [''crm tools''], per_query = 6\<rparr>"

definition judged_obj :: "string \<Rightarrow> bool \<Rightarrow> json" where
  "judged_obj u k = JObj [(''url'', JStr u), (''keep'', JBool k), (''reason'', JStr ''r'')]"


section \<open>The string primitives on some characters\<close>

text \<open>Capital E with acute (201) has the lower-case letter 233, the multiplication sign
  (215) and the sharp s (223) have none; the no-break space (160) separates words.\<close>

lemma lower_char_examples:
  "lower [char_of (201 :: nat), char_of (215 :: nat), char_of (223 :: nat), CHR ''Q'']
     = [char_of (233 :: nat), char_of (215 :: nat), char_of (223 :: nat), CHR ''q'']"
  by code_simp

lemma split_ws_example:
  "split_ws ([CHR ''a'', char_of (160 :: nat), CHR ''b'', CHR '' '', CHR '' '', CHR ''c''])
     = [''a'', ''b'', ''c'']"
  by code_simp


section \<open>Properties of the deduplicator\<close>

lemma hd_split_on: "hd (split_on sep s) = takeWhile (\<lambda>c. c \<noteq> sep) s"
  by (induction s) auto

lemma identity_key_takeWhile: "identity_key u = takeWhile (\<lambda>c. c \<noteq> CHR ''?'') u"
  by (simp add: identity_key_def hd_split_on)

lemma identity_key_query: "identity_key (b @ CHR ''?'' # s) = identity_key b"
  by (induction b) (simp_all add: identity_key_takeWhile)

text \<open>The list \<open>out\<close> only grows at its end, so the loop can be read with an empty
  \<open>out\<close>.\<close>

lemma dedupe_loop_out: "dedupe_loop items seen out = out @ dedupe_loop items seen []"
proof (induction items arbitrary: seen out)
  case Nil
  show ?case by simp
next
  case (Cons i items)
  show ?case
    using Cons.IH [of "insert (identity_key (url i)) seen" "out @ [i]"]
      Cons.IH [of "insert (identity_key (url i)) seen" "[i]"]
      Cons.IH [of seen out]
    by (simp add: Let_def)
qed

lemma dedupe_loop_Cons:
  "dedupe_loop (i # items) seen [] =
     (if identity_key (url i) \<in> seen then dedupe_loop items seen []
      else i # dedupe_loop items (insert (identity_key (url i)) seen) [])"
  using dedupe_loop_out [of items "insert (identity_key (url i)) seen" "[i]"]
  by (simp add: Let_def)

lemma dedupe_loop_subseq: "subseq (dedupe_loop items seen []) items"
proof (induction items arbitrary: seen)
  case Nil
  show ?case by simp
next
  case (Cons i items)
  show ?case using Cons.IH by (simp only: dedupe_loop_Cons split: if_split) auto
qed

lemma dedupe_loop_filter:
  "filter (\<lambda>q. identity_key (url q) = k) (dedupe_loop items seen []) =
     (if k \<in> seen then [] else take 1 (filter (\<lambda>q. identity_key (url q) = k) items))"
proof (induction items arbitrary: seen)
  case Nil
  show ?case by simp
next
  case (Cons i items)
  show ?case using Cons.IH by (simp only: dedupe_loop_Cons split: if_split) auto
qed

lemma dedupe_loop_idem:
  "dedupe_loop (dedupe_loop items seen []) seen [] = dedupe_loop items seen []"
proof (induction items arbitrary: seen)
  case Nil
  show ?case by simp
next
  case (Cons i items)
  show ?case using Cons.IH by (simp add: dedupe_loop_Cons del: dedupe_loop.simps(2))
qed

lemma dedupe_by_url_pair:
  "identity_key (url p) = identity_key (url q) \<Longrightarrow> dedupe_by_url [p, q] = [p]"
  by (simp add: dedupe_by_url_def Let_def)

text \<open>
  Claim C5. \<open>dedupe_by_url\<close> returns a subsequence of its input (the survivors keep their
  input order); for every key \<open>k\<close>, the records of the output with identity key \<open>k\<close> are
  exactly the first record of the input with that key (none when the input has none), so
  every later record with an equal key is dropped; the identity key is the url cut at the
  first \<open>?\<close>, taken verbatim; two records whose urls differ only in the query string
  collapse to the first one.
\<close>

theorem dedupe_by_url_first_occurrence:
  "subseq (dedupe_by_url items) items
   \<and> filter (\<lambda>q. identity_key (url q) = k) (dedupe_by_url items)
       = take 1 (filter (\<lambda>q. identity_key (url q) = k) items)
   \<and> identity_key u = takeWhile (\<lambda>c. c \<noteq> CHR ''?'') u
   \<and> dedupe_by_url [p\<lparr>url := b @ ''?'' @ s\<rparr>, q\<lparr>url := b @ ''?'' @ t\<rparr>]
       = [p\<lparr>url := b @ ''?'' @ s\<rparr>]"
proof -
  have "subseq (dedupe_by_url items) items"
    by (simp add: dedupe_by_url_def dedupe_loop_subseq)
  moreover have "filter (\<lambda>q. identity_key (url q) = k) (dedupe_by_url items)
       = take 1 (filter (\<lambda>q. identity_key (url q) = k) items)"
    by (simp add: dedupe_by_url_def dedupe_loop_filter)
  moreover have "dedupe_by_url [p\<lparr>url := b @ ''?'' @ s\<rparr>, q\<lparr>url := b @ ''?'' @ t\<rparr>]
       = [p\<lparr>url := b @ ''?'' @ s\<rparr>]"
    by (rule dedupe_by_url_pair) (simp add: identity_key_query)
  ultimately show ?thesis
    by (simp add: identity_key_takeWhile)
qed

text \<open>The scenario of the specification: \<open>http://a.co/x?foo=1\<close> and
  \<open>http://a.co/x?bar=2\<close> have the key \<open>http://a.co/x\<close>, and only the first survives.\<close>

theorem dedupe_by_url_first_occurrence_witness:
  "filter (\<lambda>q. identity_key (url q) = ''http://a.co/x'')
      (dedupe_by_url [plain_post ''http://a.co/x?foo=1'', plain_post ''http://a.co/x?bar=2''])
     = [plain_post ''http://a.co/x?foo=1'']
   \<and> dedupe_by_url [plain_post ''http://a.co/x?foo=1'', plain_post ''http://a.co/x?bar=2'']
     = [plain_post ''http://a.co/x?foo=1'']"
proof -
  have url: "url (plain_post v) = v" for v
    by (simp add: plain_post_def)
  have upd: "(plain_post v)\<lparr>url := w\<rparr> = plain_post w" for v w
    by (simp add: plain_post_def)
  have k1: "identity_key ''http://a.co/x?foo=1'' = ''http://a.co/x''"
    by (simp add: identity_key_takeWhile)
  have k2: "identity_key ''http://a.co/x?bar=2'' = ''http://a.co/x''"
    by (simp add: identity_key_takeWhile)
  note inst = dedupe_by_url_first_occurrence
      [where items = "[plain_post ''http://a.co/x?foo=1'', plain_post ''http://a.co/x?bar=2'']"
         and k = "''http://a.co/x''" and p = "plain_post []" and q = "plain_post []"
         and b = "''http://a.co/x''" and s = "''foo=1''" and t = "''bar=2''" and u = "[]"]
  from inst have "filter (\<lambda>q. identity_key (url q) = ''http://a.co/x'')
      (dedupe_by_url [plain_post ''http://a.co/x?foo=1'', plain_post ''http://a.co/x?bar=2''])
     = take 1 (filter (\<lambda>q. identity_key (url q) = ''http://a.co/x'')
         [plain_post ''http://a.co/x?foo=1'', plain_post ''http://a.co/x?bar=2''])"
    by (rule conjunct1 [OF conjunct2])
  then have a: "filter (\<lambda>q. identity_key (url q) = ''http://a.co/x'')
      (dedupe_by_url [plain_post ''http://a.co/x?foo=1'', plain_post ''http://a.co/x?bar=2''])
     = [plain_post ''http://a.co/x?foo=1'']"
    by (simp add: url k1 k2)
  from inst have b: "dedupe_by_url [plain_post ''http://a.co/x?foo=1'', plain_post ''http://a.co/x?bar=2'']
     = [plain_post ''http://a.co/x?foo=1'']"
    by (simp add: upd)
  from a b show ?thesis by (rule conjI)
qed

text \<open>
  Claim C9. Deduplication is idempotent: deduplicating a deduplicated sequence changes
  nothing.
\<close>

theorem dedupe_by_url_idempotent:
  "dedupe_by_url (dedupe_by_url items) = dedupe_by_url items"
  by (simp add: dedupe_by_url_def dedupe_loop_idem)

theorem dedupe_by_url_idempotent_witness:
  "dedupe_by_url (dedupe_by_url [plain_post ''http://a.co/x?foo=1'', plain_post ''http://b.co/y'',
                                 plain_post ''http://a.co/x?bar=2''])
     = [plain_post ''http://a.co/x?foo=1'', plain_post ''http://b.co/y'']"
proof -
  have "dedupe_by_url [plain_post ''http://a.co/x?foo=1'', plain_post ''http://b.co/y'',
                       plain_post ''http://a.co/x?bar=2'']
          = [plain_post ''http://a.co/x?foo=1'', plain_post ''http://b.co/y'']"
    by (simp add: dedupe_by_url_def plain_post_def identity_key_takeWhile Let_def)
  then show ?thesis
    using dedupe_by_url_idempotent
      [of "[plain_post ''http://a.co/x?foo=1'', plain_post ''http://b.co/y'',
            plain_post ''http://a.co/x?bar=2'']"]
    by simp
qed


section \<open>Properties of the mixer\<close>

lemma foldl_mix_step:
  "foldl (mix_step rd li x) acc ns =
     acc @ concat (map (\<lambda>i. (if i < length rd then [rd ! i] else []) @
                            (if i < length li then [li ! i] else []) @
                            (if i < length x then [x ! i] else [])) ns)"
  by (induction ns arbitrary: acc) (simp_all add: mix_step_def Let_def)

lemma SearchAllApis_mixes:
  "reddit qs (n * 2) = Inr rd \<Longrightarrow> linkedin qs n = Inr li \<Longrightarrow>
     SearchAllApis reddit linkedin qs n = Inr (mixed_results rd li [])"
  by (simp add: SearchAllApis_def searchXApi_def)

text \<open>
  Claim C6. The mixer interleaves the three sequences round-robin: for each index \<open>i\<close>
  from 0 up to the length of the longest sequence it appends element \<open>i\<close> of the reddit
  sequence, then of the linkedin sequence, then of the x sequence, skipping a source that
  has no element at \<open>i\<close>; reddit \<open>[r1, r2, r3]\<close>, linkedin \<open>[l1]\<close>, x \<open>[]\<close> give
  \<open>[r1, l1, r2, r3]\<close>.
\<close>

theorem mixed_results_round_robin:
  "mixed_results rd li x =
     concat (map (\<lambda>i. (if i < length rd then [rd ! i] else []) @
                       (if i < length li then [li ! i] else []) @
                       (if i < length x then [x ! i] else []))
                 [0 ..< max (length rd) (max (length li) (length x))])
   \<and> mixed_results [r1, r2, r3] [l1] [] = [r1, l1, r2, r3]"
proof -
  have "mixed_results [r1, r2, r3] [l1] [] = [r1, l1, r2, r3]"
    by (simp add: mixed_results_def mix_step_def Let_def upt_rec)
  then show ?thesis
    by (simp add: mixed_results_def foldl_mix_step)
qed

theorem mixed_results_round_robin_witness:
  "mixed_results [plain_post ''r1'', plain_post ''r2'', plain_post ''r3''] [plain_post ''l1''] []
     = [plain_post ''r1'', plain_post ''l1'', plain_post ''r2'', plain_post ''r3'']"
  using mixed_results_round_robin
    [of "[plain_post ''r1'', plain_post ''r2'', plain_post ''r3'']" "[plain_post ''l1'']" "[]"
        "plain_post ''r1''" "plain_post ''r2''" "plain_post ''r3''" "plain_post ''l1''"]
  by simp


section \<open>Properties of the ranker\<close>

subsection \<open>The sort and the slice\<close>

lemma length_sort_reverse: "length (sort_reverse key xs) = length xs"
  by (simp add: sort_reverse_def)

lemma sort_reverse_stable:
  "filter (\<lambda>y. key y = k) (sort_reverse key xs) = filter (\<lambda>y. key y = k) xs"
  by (simp add: sort_reverse_def sort_key_stable flip: rev_filter)

lemma sort_reverse_descending:
  "sorted_wrt (\<lambda>a b. key b \<le> key a) (sort_reverse key xs)"
proof -
  have "sorted (map key (sort_key key (rev xs)))"
    by (rule sorted_sort_key)
  then have "sorted_wrt (\<lambda>a b. key a \<le> key b) (sort_key key (rev xs))"
    by (simp add: sorted_map)
  then show ?thesis
    by (simp add: sort_reverse_def sorted_wrt_rev)
qed

lemma insort_key_map:
  "insort_key k (g x) (map g ys) = map g (insort_key (\<lambda>y. k (g y)) x ys)"
  by (induction ys) simp_all

lemma sort_key_map: "sort_key k (map g xs) = map g (sort_key (\<lambda>y. k (g y)) xs)"
  by (induction xs) (simp_all add: insort_key_map)

lemma sort_reverse_map:
  "sort_reverse k (map g xs) = map g (sort_reverse (\<lambda>y. k (g y)) xs)"
  by (simp add: sort_reverse_def sort_key_map rev_map)

lemma prefix_slice_to: "prefix (slice_to n xs) xs"
  by (simp add: slice_to_def take_is_prefix)

lemma map_slice_to: "map f (slice_to n xs) = slice_to n (map f xs)"
  by (simp add: slice_to_def take_map)

lemma sorted_wrt_slice_to: "sorted_wrt R xs \<Longrightarrow> sorted_wrt R (slice_to n xs)"
  by (simp add: slice_to_def sorted_wrt_take)

lemma length_slice_to_nonneg:
  "0 \<le> n \<Longrightarrow> int (length (slice_to n xs)) = min (int (length xs)) n"
  by (simp add: slice_to_def)

text \<open>The scores are only sort keys: the ranking is the slice of the posts sorted by
  their score.\<close>

lemma rank_posts_by_intent_eq:
  "rank_posts_by_intent d posts qs n =
     slice_to n (sort_reverse (\<lambda>p. heuristic_intent_score d p (query_terms_of qs)) posts)"
  by (simp add: rank_posts_by_intent_def Let_def map_slice_to sort_reverse_map o_def)

lemma length_rank_nonneg:
  "0 \<le> n \<Longrightarrow> int (length (rank_posts_by_intent d posts qs n)) = min (int (length posts)) n"
  by (simp add: rank_posts_by_intent_eq length_slice_to_nonneg length_sort_reverse)

lemma rank_top60_nonempty: "posts \<noteq> [] \<Longrightarrow> rank_posts_by_intent d posts qs 60 \<noteq> []"
proof -
  assume "posts \<noteq> []"
  then have "0 < min (int (length posts)) 60" by simp
  moreover have "int (length (rank_posts_by_intent d posts qs 60)) = min (int (length posts)) 60"
    by (rule length_rank_nonneg) simp
  ultimately have "0 < int (length (rank_posts_by_intent d posts qs 60))"
    by (simp only:)
  then show ?thesis by auto
qed

lemma rank_descending:
  "sorted_wrt (\<lambda>a b. heuristic_intent_score d b (query_terms_of qs)
                       \<le> heuristic_intent_score d a (query_terms_of qs))
     (rank_posts_by_intent d posts qs n)"
  unfolding rank_posts_by_intent_eq
  by (rule sorted_wrt_slice_to) (rule sort_reverse_descending)

lemma rank_stable:
  "prefix (filter (\<lambda>p. heuristic_intent_score d p (query_terms_of qs) = s)
             (rank_posts_by_intent d posts qs n))
          (filter (\<lambda>p. heuristic_intent_score d p (query_terms_of qs) = s) posts)"
proof -
  let ?sc = "\<lambda>p. heuristic_intent_score d p (query_terms_of qs)"
  have "prefix (filter (\<lambda>p. ?sc p = s) (slice_to n (sort_reverse ?sc posts)))
               (filter (\<lambda>p. ?sc p = s) (sort_reverse ?sc posts))"
    by (rule filter_mono_prefix) (rule prefix_slice_to)
  then show ?thesis
    by (simp add: rank_posts_by_intent_eq sort_reverse_stable)
qed

subsection \<open>The score\<close>

lemma score_clock:
  "(\<And>t. ts p = Some t \<Longrightarrow> d' t = d t) \<Longrightarrow>
     heuristic_intent_score d' p terms = heuristic_intent_score d p terms"
  by (cases "ts p") (simp_all add: heuristic_intent_score_def score_recency_def cong: if_cong)

lemma rank_clock:
  assumes "\<forall>p \<in> set posts. \<forall>t. ts p = Some t \<longrightarrow> d' t = d t"
  shows "rank_posts_by_intent d' posts qs n = rank_posts_by_intent d posts qs n"
proof -
  have eq: "map (\<lambda>post. (heuristic_intent_score d' post (query_terms_of qs), post)) posts
      = map (\<lambda>post. (heuristic_intent_score d post (query_terms_of qs), post)) posts"
  proof (rule map_cong [OF refl])
    fix p
    assume p: "p \<in> set posts"
    have "heuristic_intent_score d' p (query_terms_of qs)
        = heuristic_intent_score d p (query_terms_of qs)"
    proof (rule score_clock)
      fix t
      assume "ts p = Some t"
      with assms p show "d' t = d t" by blast
    qed
    then show "(heuristic_intent_score d' p (query_terms_of qs), p)
             = (heuristic_intent_score d p (query_terms_of qs), p)"
      by (simp only:)
  qed
  show ?thesis
    unfolding rank_posts_by_intent_def Let_def by (simp only: eq)
qed


text \<open>Rounding is visible in the sums: three times 0.8 is not the float 2.4.\<close>

lemma fadd_example:
  "fadd (fadd (fadd 0 (round_double 0.8)) (round_double 0.8)) (round_double 0.8)
     = 1351079888211149 / 562949953421312
   \<and> round_double 2.4 = 5404319552844595 / 2251799813685248"
  by code_simp

subsection \<open>Length of the ranking\<close>

text \<open>
  Claim C7, as amended. For every record list, query list and non-negative \<open>topN\<close>
  (default 60), the ranking returns exactly \<open>min(len(records), topN)\<close> records: never
  more than \<open>topN\<close>, and all of the records when fewer than \<open>topN\<close> exist.
\<close>

theorem rank_posts_by_intent_length:
  "0 \<le> top_n \<Longrightarrow>
     int (length (rank_posts_by_intent d posts qs top_n)) = min (int (length posts)) top_n"
  by (rule length_rank_nonneg)

theorem rank_posts_by_intent_length_witness:
  "int (length (rank_posts_by_intent no_clock four_posts [''crm tools''] 60)) = 4
   \<and> int (length (rank_posts_by_intent no_clock four_posts [''crm tools''] 3)) = 3"
proof -
  have "(0::int) \<le> 60" and "(0::int) \<le> 3" by simp_all
  then show ?thesis
    using rank_posts_by_intent_length [of 60 no_clock four_posts "[''crm tools'']"]
      rank_posts_by_intent_length [of 3 no_clock four_posts "[''crm tools'']"]
    by (simp add: four_posts_def)
qed

text \<open>For a negative \<open>top_n\<close> the slice \<open>scored_posts[:top_n]\<close> drops records from the
  end: with two records and \<open>top_n = -1\<close> one record is returned, which is neither
  \<open>min(2, -1)\<close> nor at most \<open>top_n\<close>.\<close>

theorem rank_posts_by_intent_negative_top_n:
  "rank_posts_by_intent no_clock [plain_post ''http://a.co/1'', plain_post ''http://a.co/2''] [] (- 1)
     = [plain_post ''http://a.co/1'']
   \<and> int (length (rank_posts_by_intent no_clock
          [plain_post ''http://a.co/1'', plain_post ''http://a.co/2''] [] (- 1)))
       \<noteq> min (int (length [plain_post ''http://a.co/1'', plain_post ''http://a.co/2''])) (- 1)"
proof -
  have "rank_posts_by_intent no_clock [plain_post ''http://a.co/1'', plain_post ''http://a.co/2''] [] (- 1)
     = [plain_post ''http://a.co/1'']"
    by code_simp
  then show ?thesis by simp
qed

subsection \<open>Order of the ranking\<close>

text \<open>
  Claim C8. The ranking is sorted descending by score with a stable sort: the records of
  the output that received a given score are, in the same order, the first of the input's
  records with that score, so two records with equal scores keep their input order; and
  the function is deterministic for a fixed clock: two clocks that give the same age for
  every timestamp of the input give the same output sequence.
\<close>

theorem rank_posts_by_intent_stable:
  "sorted_wrt (\<lambda>a b. heuristic_intent_score d b (query_terms_of qs)
                       \<le> heuristic_intent_score d a (query_terms_of qs))
     (rank_posts_by_intent d posts qs top_n)
   \<and> prefix (filter (\<lambda>p. heuristic_intent_score d p (query_terms_of qs) = s)
               (rank_posts_by_intent d posts qs top_n))
            (filter (\<lambda>p. heuristic_intent_score d p (query_terms_of qs) = s) posts)
   \<and> ((\<forall>p \<in> set posts. \<forall>t. ts p = Some t \<longrightarrow> d' t = d t) \<longrightarrow>
        rank_posts_by_intent d' posts qs top_n = rank_posts_by_intent d posts qs top_n)"
proof (intro conjI impI)
  show "sorted_wrt (\<lambda>a b. heuristic_intent_score d b (query_terms_of qs)
                       \<le> heuristic_intent_score d a (query_terms_of qs))
     (rank_posts_by_intent d posts qs top_n)"
    by (rule rank_descending)
  show "prefix (filter (\<lambda>p. heuristic_intent_score d p (query_terms_of qs) = s)
               (rank_posts_by_intent d posts qs top_n))
            (filter (\<lambda>p. heuristic_intent_score d p (query_terms_of qs) = s) posts)"
    by (rule rank_stable)
  assume "\<forall>p \<in> set posts. \<forall>t. ts p = Some t \<longrightarrow> d' t = d t"
  then show "rank_posts_by_intent d' posts qs top_n = rank_posts_by_intent d posts qs top_n"
    by (rule rank_clock)
qed

text \<open>Two plain records around a dated reddit record: the reddit record moves to the
  front, the plain ones keep their order, under either clock.\<close>

theorem rank_posts_by_intent_stable_witness:
  "rank_posts_by_intent clock_b
      [plain_post ''http://a.co/1'', dated_post ''https://reddit.com/r/crm'' ''2026-01-01T00:00:00Z'',
       plain_post ''http://a.co/2''] [''crm tools''] 60
     = [dated_post ''https://reddit.com/r/crm'' ''2026-01-01T00:00:00Z'',
        plain_post ''http://a.co/1'', plain_post ''http://a.co/2'']"
proof -
  have agree: "\<forall>p \<in> set [plain_post ''http://a.co/1'',
                    dated_post ''https://reddit.com/r/crm'' ''2026-01-01T00:00:00Z'',
                    plain_post ''http://a.co/2'']. \<forall>t. ts p = Some t \<longrightarrow> clock_b t = clock_a t"
    by (simp add: plain_post_def dated_post_def clock_a_def clock_b_def)
  have val: "rank_posts_by_intent clock_a
      [plain_post ''http://a.co/1'', dated_post ''https://reddit.com/r/crm'' ''2026-01-01T00:00:00Z'',
       plain_post ''http://a.co/2''] [''crm tools''] 60
     = [dated_post ''https://reddit.com/r/crm'' ''2026-01-01T00:00:00Z'',
        plain_post ''http://a.co/1'', plain_post ''http://a.co/2'']"
    by code_simp
  from agree val show ?thesis
    using rank_posts_by_intent_stable
      [where d = clock_a and d' = clock_b and qs = "[''crm tools'']" and top_n = 60 and s = 0
         and posts = "[plain_post ''http://a.co/1'',
                       dated_post ''https://reddit.com/r/crm'' ''2026-01-01T00:00:00Z'',
                       plain_post ''http://a.co/2'']"]
    by (simp only:)
qed

subsection \<open>Term overlap in the score\<close>





section \<open>Properties of the filter and of the search\<close>

subsection \<open>The final assembly\<close>

lemma keep_urls_mem:
  "u \<in> keep_urls judged \<longleftrightarrow> (\<exists>j \<in> set judged. j_keep j \<and> j_url j = u)"
  by (auto simp: keep_urls_def)

lemma keep_urls_empty: "keep_urls judged = {} \<longleftrightarrow> (\<forall>j \<in> set judged. \<not> j_keep j)"
  by (auto simp: keep_urls_def filter_empty_conv)

lemma keep_urls_keep_all: "keep_urls (keep_all items) = set (map i_url items)"
  by (simp add: keep_urls_def keep_all_def o_def)

lemma assemble_none_kept:
  "\<forall>j \<in> set judged. \<not> j_keep j \<Longrightarrow> assemble top_candidates judged = take 3 top_candidates"
  by (simp add: assemble_def keep_urls_empty)

text \<open>When every candidate is kept, the candidates pass unchanged up to the first 15.\<close>

lemma assemble_keep_all:
  "assemble top_candidates (keep_all (map item_of top_candidates)) = take 15 top_candidates"
proof (cases "top_candidates = []")
  case True
  then show ?thesis
    by (simp add: assemble_def keep_all_def keep_urls_def)
next
  case False
  have "filter (\<lambda>p. url p \<in> url ` set top_candidates) top_candidates = top_candidates"
    by (rule filter_True) simp
  with False show ?thesis
    by (simp add: assemble_def keep_urls_keep_all o_def item_of_def)
qed

subsection \<open>The filter and the request\<close>

lemma llmFilterPosts_parse_fails:
  "parse_judged loads val text = None \<Longrightarrow>
     llmFilterPosts loads val (Inr text) items = Inr (keep_all items)"
  by (simp add: llmFilterPosts_def)

lemma llmFilterPosts_call_fails: "llmFilterPosts loads val (Inl e) items = Inl e"
  by (simp add: llmFilterPosts_def)

lemma search_candidates:
  "SearchAllApis (searchRedditApi w) (searchLinkedInApi w) (queries req) (per_query req) = Inr posts \<Longrightarrow>
   dedupe_by_url posts \<noteq> [] \<Longrightarrow>
   search w req =
     (case llmFilterPosts (json_loads w) (validate w)
             (responses w (topic req)
                (map item_of (rank_posts_by_intent (days_old w) (dedupe_by_url posts) (queries req) 60)))
             (map item_of (rank_posts_by_intent (days_old w) (dedupe_by_url posts) (queries req) 60)) of
        Inl e \<Rightarrow> Inl e
      | Inr judged \<Rightarrow>
          Inr (assemble (rank_posts_by_intent (days_old w) (dedupe_by_url posts) (queries req) 60)
                 judged))"
  by (simp add: search_def Let_def)

lemma search_no_posts:
  "SearchAllApis (searchRedditApi w) (searchLinkedInApi w) (queries req) (per_query req) = Inr posts \<Longrightarrow>
   dedupe_by_url posts = [] \<Longrightarrow> search w req = Inr []"
  by (simp add: search_def Let_def)

lemma rank_Nil: "rank_posts_by_intent d [] qs 60 = []"
  by (simp add: rank_posts_by_intent_eq slice_to_def sort_reverse_def)

subsection \<open>The example world\<close>

lemma example_fetch:
  "SearchAllApis (searchRedditApi (example_world reply loads))
     (searchLinkedInApi (example_world reply loads)) (queries example_req) (per_query example_req)
     = Inr four_posts"
proof -
  have "mixed_results four_posts [] [] = four_posts"
    by (simp add: mixed_results_def mix_step_def Let_def four_posts_def upt_rec)
  then show ?thesis
    by (simp add: example_world_def SearchAllApis_def searchXApi_def)
qed

lemma four_posts_nonempty: "four_posts \<noteq> []"
  by (simp add: four_posts_def)

lemma example_dedupe: "dedupe_by_url four_posts = four_posts"
  by (simp add: dedupe_by_url_def four_posts_def plain_post_def identity_key_takeWhile Let_def)

lemma example_rank:
  "rank_posts_by_intent (days_old (example_world reply loads)) (dedupe_by_url four_posts)
     (queries example_req) 60 = four_posts"
  "rank_posts_by_intent (days_old (example_world reply loads)) four_posts
     (queries example_req) 60 = four_posts"
proof -
  have "rank_posts_by_intent no_clock four_posts [''crm tools''] 60 = four_posts"
    by code_simp
  then show "rank_posts_by_intent (days_old (example_world reply loads)) four_posts
     (queries example_req) 60 = four_posts"
    by (simp add: example_world_def example_req_def)
  then show "rank_posts_by_intent (days_old (example_world reply loads)) (dedupe_by_url four_posts)
     (queries example_req) 60 = four_posts"
    by (simp add: example_dedupe)
qed

lemma example_fields:
  "json_loads (example_world reply loads) = loads"
  "validate (example_world reply loads) = validate_exact"
  "responses (example_world reply loads) t items = reply"
  by (simp_all add: example_world_def)

subsection \<open>No judgment kept\<close>

text \<open>
  Claim C1, as amended. In the search orchestration, if the semantic filter returns no
  judgment with \<open>keep = true\<close>, the result is the first 3 records of the heuristic
  ranking, in ranked order, and it is not empty when at least one candidate exists. The
  case where the filter step itself fails is not among these.
\<close>

theorem search_none_kept_top3:
  fixes w :: World and req :: SearchReq and posts :: "Post list"
  defines "cands \<equiv> rank_posts_by_intent (days_old w) (dedupe_by_url posts) (queries req) 60"
  assumes "SearchAllApis (searchRedditApi w) (searchLinkedInApi w) (queries req) (per_query req)
             = Inr posts"
    and "dedupe_by_url posts \<noteq> []"
    and "llmFilterPosts (json_loads w) (validate w)
           (responses w (topic req) (map item_of cands)) (map item_of cands) = Inr judged"
    and "\<forall>j \<in> set judged. \<not> j_keep j"
  shows "search w req = Inr (take 3 cands) \<and> take 3 cands \<noteq> []"
proof -
  have "cands \<noteq> []"
    unfolding cands_def using assms(3) by (rule rank_top60_nonempty)
  then have "take 3 cands \<noteq> []" by simp
  moreover have "search w req = Inr (assemble cands judged)"
    using search_candidates [OF assms(2) assms(3)] assms(4) by (simp add: cands_def)
  ultimately show ?thesis
    using assms(5) by (simp add: assemble_none_kept)
qed

text \<open>The filter answers with two judgments, both \<open>keep = false\<close>: the first three of
  the four ranked records are returned.\<close>

theorem search_none_kept_top3_witness:
  "search (example_world (Inr ''reply'')
             (loads_gives (JArr [judged_obj ''http://a.co/1'' False,
                                 judged_obj ''http://a.co/2'' False])))
          example_req
     = Inr [plain_post ''http://a.co/1'', plain_post ''http://a.co/2'', plain_post ''http://a.co/3'']"
proof -
  let ?loads = "loads_gives (JArr [judged_obj ''http://a.co/1'' False,
                                   judged_obj ''http://a.co/2'' False])"
  let ?w = "example_world (Inr ''reply'') ?loads"
  let ?judged = "[\<lparr>j_url = ''http://a.co/1'', j_keep = False, j_reason = ''r''\<rparr>,
                  \<lparr>j_url = ''http://a.co/2'', j_keep = False, j_reason = ''r''\<rparr>]"
  have h1: "SearchAllApis (searchRedditApi ?w) (searchLinkedInApi ?w) (queries example_req)
              (per_query example_req) = Inr four_posts"
    by (rule example_fetch)
  have h2: "dedupe_by_url four_posts \<noteq> []"
    by (simp add: example_dedupe four_posts_nonempty)
  have h3: "llmFilterPosts (json_loads ?w) (validate ?w)
              (responses ?w (topic example_req)
                 (map item_of (rank_posts_by_intent (days_old ?w) (dedupe_by_url four_posts)
                                 (queries example_req) 60)))
              (map item_of (rank_posts_by_intent (days_old ?w) (dedupe_by_url four_posts)
                              (queries example_req) 60))
            = Inr ?judged"
    by (simp add: example_fields llmFilterPosts_def parse_judged_def loads_gives_def
        judge_each_def iterate_def JudgeItem_from_def judged_obj_def validate_exact_def)
  have h4: "\<forall>j \<in> set ?judged. \<not> j_keep j"
    by simp
  have "search ?w example_req
          = Inr (take 3 (rank_posts_by_intent (days_old ?w) (dedupe_by_url four_posts)
                           (queries example_req) 60))"
    using search_none_kept_top3 [OF h1 h2 h3 h4] by (rule conjunct1)
  then show ?thesis
    by (simp only: example_rank) (simp add: four_posts_def)
qed

text \<open>The filter step fails: the reply does not parse. All four ranked records are
  returned, not the first three.\<close>

theorem search_filter_fails_not_top3:
  "parse_judged loads_fails validate_exact ''not json'' = None
   \<and> search (example_world (Inr ''not json'') loads_fails) example_req = Inr four_posts
   \<and> search (example_world (Inr ''not json'') loads_fails) example_req
       \<noteq> Inr (take 3 (rank_posts_by_intent no_clock (dedupe_by_url four_posts)
                          (queries example_req) 60))"
proof -
  let ?w = "example_world (Inr ''not json'') loads_fails"
  have p: "parse_judged loads_fails validate_exact ''not json'' = None"
    by (simp add: parse_judged_def loads_fails_def)
  have r: "rank_posts_by_intent no_clock (dedupe_by_url four_posts) (queries example_req) 60
             = four_posts"
    using example_rank(1) [of "Inr ''not json''" loads_fails] by (simp add: example_world_def)
  have "search ?w example_req = Inr (assemble four_posts (keep_all (map item_of four_posts)))"
    using search_candidates [of ?w example_req four_posts]
    by (simp add: example_fetch example_dedupe example_rank example_fields
        llmFilterPosts_parse_fails [OF p] four_posts_nonempty)
  then have s: "search ?w example_req = Inr four_posts"
    by (simp only: assemble_keep_all) (simp add: four_posts_def)
  have n: "(Inr four_posts :: error + Post list) \<noteq> Inr (take 3 four_posts)"
    by (simp add: four_posts_def)
  show ?thesis
    unfolding s r using p n by (intro conjI) simp_all
qed

subsection \<open>The filter step fails\<close>

text \<open>
  Claim C2, as amended. For every input on which the reply of the language model is
  received but processing it raises (\<open>json.loads\<close> or the construction of a judgment),
  the outcome equals treating every candidate as kept: the result is the first 15 records
  of the ranked top 60 (all of them when fewer than 15 exist), in ranked order, and the
  failure is not surfaced to the caller. When the call to the language model itself
  raises, the request fails with that error.
\<close>

theorem search_filter_failure:
  fixes w :: World and req :: SearchReq and posts :: "Post list"
  defines "cands \<equiv> rank_posts_by_intent (days_old w) (dedupe_by_url posts) (queries req) 60"
  assumes "SearchAllApis (searchRedditApi w) (searchLinkedInApi w) (queries req) (per_query req)
             = Inr posts"
  shows "(\<forall>reply. responses w (topic req) (map item_of cands) = Inr reply
              \<and> parse_judged (json_loads w) (validate w) reply = None
            \<longrightarrow> search w req = Inr (take 15 cands))
       \<and> (\<forall>e. dedupe_by_url posts \<noteq> [] \<and> responses w (topic req) (map item_of cands) = Inl e
            \<longrightarrow> search w req = Inl e)"
proof (intro conjI allI impI)
  fix reply
  assume a: "responses w (topic req) (map item_of cands) = Inr reply
              \<and> parse_judged (json_loads w) (validate w) reply = None"
  show "search w req = Inr (take 15 cands)"
  proof (cases "dedupe_by_url posts = []")
    case True
    then show ?thesis
      using search_no_posts [OF assms(2) True] by (simp add: cands_def rank_Nil)
  next
    case False
    have "llmFilterPosts (json_loads w) (validate w) (responses w (topic req) (map item_of cands))
            (map item_of cands) = Inr (keep_all (map item_of cands))"
      using a by (simp add: llmFilterPosts_parse_fails)
    then have "search w req = Inr (assemble cands (keep_all (map item_of cands)))"
      using search_candidates [OF assms(2) False] by (simp add: cands_def)
    then show ?thesis
      by (simp add: assemble_keep_all)
  qed
next
  fix e
  assume b: "dedupe_by_url posts \<noteq> [] \<and> responses w (topic req) (map item_of cands) = Inl e"
  then have "llmFilterPosts (json_loads w) (validate w) (responses w (topic req) (map item_of cands))
            (map item_of cands) = Inl e"
    by (simp add: llmFilterPosts_call_fails)
  then show "search w req = Inl e"
    using search_candidates [OF assms(2)] b by (simp add: cands_def)
qed

text \<open>A reply whose one element is a string, not an object: the construction of the
  judgment raises and all four records are returned. A call that raises \<open>timeout\<close>: the
  request fails with \<open>timeout\<close>.\<close>

theorem search_filter_failure_witness:
  "search (example_world (Inr ''[bad]'') (loads_gives (JArr [JStr ''bad'']))) example_req
     = Inr four_posts
   \<and> search (example_world (Inl ''timeout'') loads_fails) example_req = Inl ''timeout''"
proof -
  let ?w1 = "example_world (Inr ''[bad]'') (loads_gives (JArr [JStr ''bad'']))"
  let ?w2 = "example_world (Inl ''timeout'') loads_fails"
  have p: "responses ?w1 (topic example_req)
             (map item_of (rank_posts_by_intent (days_old ?w1) (dedupe_by_url four_posts)
                             (queries example_req) 60)) = Inr ''[bad]''
           \<and> parse_judged (json_loads ?w1) (validate ?w1) ''[bad]'' = None"
    by (simp add: example_fields parse_judged_def loads_gives_def judge_each_def iterate_def
        JudgeItem_from_def)
  have "search ?w1 example_req
          = Inr (take 15 (rank_posts_by_intent (days_old ?w1) (dedupe_by_url four_posts)
                            (queries example_req) 60))"
    using search_filter_failure [of ?w1 example_req four_posts, OF example_fetch] p by blast
  then have a: "search ?w1 example_req = Inr four_posts"
    by (simp only: example_rank) (simp add: four_posts_def)
  have q: "dedupe_by_url four_posts \<noteq> []
           \<and> responses ?w2 (topic example_req)
               (map item_of (rank_posts_by_intent (days_old ?w2) (dedupe_by_url four_posts)
                               (queries example_req) 60)) = Inl ''timeout''"
    by (simp add: example_fields example_dedupe four_posts_nonempty)
  have b: "search ?w2 example_req = Inl ''timeout''"
    using search_filter_failure [of ?w2 example_req four_posts, OF example_fetch] q by blast
  from a b show ?thesis by (rule conjI)
qed

text \<open>The call to the language model raises: the caller gets the error, not the first
  15 ranked records.\<close>

theorem search_filter_call_raises:
  "responses (example_world (Inl ''503 Service Unavailable'') loads_fails) (topic example_req)
      (map item_of four_posts) = Inl ''503 Service Unavailable''
   \<and> search (example_world (Inl ''503 Service Unavailable'') loads_fails) example_req
       = Inl ''503 Service Unavailable''
   \<and> search (example_world (Inl ''503 Service Unavailable'') loads_fails) example_req
       \<noteq> Inr (take 15 four_posts)"
proof -
  let ?w = "example_world (Inl ''503 Service Unavailable'') loads_fails"
  have "dedupe_by_url four_posts \<noteq> []"
    by (simp add: example_dedupe four_posts_nonempty)
  then have "search ?w example_req = Inl ''503 Service Unavailable''"
    using search_candidates [of ?w example_req four_posts, OF example_fetch]
    by (simp add: example_fields llmFilterPosts_call_fails)
  then show ?thesis
    by (simp add: example_fields)
qed

subsection \<open>Matching judgments to records\<close>

text \<open>
  Claim C3, as amended. The judgments returned by the semantic filter are matched back to
  the ranked records by the url string itself, compared for equality with its query
  string, not by object reference: when some judgment is kept, a ranked record counts as
  kept exactly when some returned judgment with \<open>keep = true\<close> has the same url string,
  and the result is the first 15 such records in ranked order.
\<close>

theorem assemble_matches_by_url:
  "\<exists>j \<in> set judged. j_keep j \<Longrightarrow>
     assemble top_candidates judged =
       take 15 (filter (\<lambda>p. \<exists>j \<in> set judged. j_keep j \<and> j_url j = url p) top_candidates)"
proof -
  assume "\<exists>j \<in> set judged. j_keep j"
  then have "keep_urls judged \<noteq> {}"
    by (simp add: keep_urls_empty)
  then show ?thesis
    by (simp add: assemble_def keep_urls_mem)
qed

theorem assemble_matches_by_url_witness:
  "assemble [plain_post ''http://a.co/x?foo=1'', plain_post ''http://a.co/2'']
     [\<lparr>j_url = ''http://a.co/2'', j_keep = False, j_reason = ''no''\<rparr>,
      \<lparr>j_url = ''http://a.co/x?foo=1'', j_keep = True, j_reason = ''yes''\<rparr>]
   = [plain_post ''http://a.co/x?foo=1'']"
proof -
  have "\<exists>j \<in> set [\<lparr>j_url = ''http://a.co/2'', j_keep = False, j_reason = ''no''\<rparr>,
                    \<lparr>j_url = ''http://a.co/x?foo=1'', j_keep = True, j_reason = ''yes''\<rparr>].
          j_keep j"
    by simp
  then show ?thesis
    using assemble_matches_by_url
      [of "[\<lparr>j_url = ''http://a.co/2'', j_keep = False, j_reason = ''no''\<rparr>,
            \<lparr>j_url = ''http://a.co/x?foo=1'', j_keep = True, j_reason = ''yes''\<rparr>]"
          "[plain_post ''http://a.co/x?foo=1'', plain_post ''http://a.co/2'']"]
    by (simp add: plain_post_def)
qed

text \<open>A kept judgment whose url has the identity key of the ranked record but another
  query string does not keep the record: the result is empty.\<close>

theorem assemble_query_string_mismatch:
  "j_keep \<lparr>j_url = ''http://a.co/x?bar=2'', j_keep = True, j_reason = ''yes''\<rparr>
   \<and> identity_key (j_url \<lparr>j_url = ''http://a.co/x?bar=2'', j_keep = True, j_reason = ''yes''\<rparr>)
       = identity_key (url (plain_post ''http://a.co/x?foo=1''))
   \<and> assemble [plain_post ''http://a.co/x?foo=1'']
         [\<lparr>j_url = ''http://a.co/x?bar=2'', j_keep = True, j_reason = ''yes''\<rparr>] = []"
  by (simp add: identity_key_takeWhile plain_post_def assemble_def keep_urls_def)

subsection \<open>Records without a judgment\<close>

text \<open>
  Claim C10. In the final assembly a ranked record for which the filter returned no
  judgment is treated exactly like one judged \<open>keep = false\<close>: the result is the same
  as if the judgments with \<open>keep = false\<close> had not been returned at all, and whenever at
  least one returned judgment has \<open>keep = true\<close>, every ranked record whose url is absent
  from the set of kept judgment urls is excluded from the result.
\<close>

theorem assemble_unjudged_excluded:
  "assemble top_candidates judged = assemble top_candidates (filter j_keep judged)
   \<and> ((\<exists>j \<in> set judged. j_keep j) \<longrightarrow>
        (\<forall>p. url p \<notin> keep_urls judged \<longrightarrow> p \<notin> set (assemble top_candidates judged)))"
proof (intro conjI impI allI)
  show "assemble top_candidates judged = assemble top_candidates (filter j_keep judged)"
    by (simp add: assemble_def keep_urls_def)
next
  fix p :: Post
  assume "\<exists>j \<in> set judged. j_keep j" and absent: "url p \<notin> keep_urls judged"
  then have "keep_urls judged \<noteq> {}"
    by (simp add: keep_urls_empty)
  then have "assemble top_candidates judged
               = take 15 (filter (\<lambda>p. url p \<in> keep_urls judged) top_candidates)"
    by (simp add: assemble_def)
  moreover have "set (take 15 (filter (\<lambda>p. url p \<in> keep_urls judged) top_candidates))
               \<subseteq> set (filter (\<lambda>p. url p \<in> keep_urls judged) top_candidates)"
    by (rule set_take_subset)
  ultimately show "p \<notin> set (assemble top_candidates judged)"
    using absent by auto
qed

text \<open>Of three ranked records the first is kept, the second is judged \<open>keep = false\<close>
  and the third has no judgment: the second and the third are both left out.\<close>

theorem assemble_unjudged_excluded_witness:
  "assemble [plain_post ''http://a.co/1'', plain_post ''http://a.co/2'', plain_post ''http://a.co/3'']
     [\<lparr>j_url = ''http://a.co/1'', j_keep = True, j_reason = ''yes''\<rparr>,
      \<lparr>j_url = ''http://a.co/2'', j_keep = False, j_reason = ''no''\<rparr>]
   = assemble [plain_post ''http://a.co/1'', plain_post ''http://a.co/2'', plain_post ''http://a.co/3'']
       [\<lparr>j_url = ''http://a.co/1'', j_keep = True, j_reason = ''yes''\<rparr>]
   \<and> plain_post ''http://a.co/2''
       \<notin> set (assemble [plain_post ''http://a.co/1'', plain_post ''http://a.co/2'',
                         plain_post ''http://a.co/3'']
                 [\<lparr>j_url = ''http://a.co/1'', j_keep = True, j_reason = ''yes''\<rparr>,
                  \<lparr>j_url = ''http://a.co/2'', j_keep = False, j_reason = ''no''\<rparr>])
   \<and> plain_post ''http://a.co/3''
       \<notin> set (assemble [plain_post ''http://a.co/1'', plain_post ''http://a.co/2'',
                         plain_post ''http://a.co/3'']
                 [\<lparr>j_url = ''http://a.co/1'', j_keep = True, j_reason = ''yes''\<rparr>,
                  \<lparr>j_url = ''http://a.co/2'', j_keep = False, j_reason = ''no''\<rparr>])"
proof -
  let ?top = "[plain_post ''http://a.co/1'', plain_post ''http://a.co/2'', plain_post ''http://a.co/3'']"
  let ?judged = "[\<lparr>j_url = ''http://a.co/1'', j_keep = True, j_reason = ''yes''\<rparr>,
                  \<lparr>j_url = ''http://a.co/2'', j_keep = False, j_reason = ''no''\<rparr>]"
  note inst = assemble_unjudged_excluded [of ?top ?judged]
  have some: "\<exists>j \<in> set ?judged. j_keep j"
    by simp
  have a2: "url (plain_post ''http://a.co/2'') \<notin> keep_urls ?judged"
    by (simp add: keep_urls_def plain_post_def)
  have a3: "url (plain_post ''http://a.co/3'') \<notin> keep_urls ?judged"
    by (simp add: keep_urls_def plain_post_def)
  from inst have e: "assemble ?top ?judged = assemble ?top (filter j_keep ?judged)"
    by (rule conjunct1)
  from inst some have x: "\<forall>p. url p \<notin> keep_urls ?judged \<longrightarrow> p \<notin> set (assemble ?top ?judged)"
    by blast
  from x a2 have n2: "plain_post ''http://a.co/2'' \<notin> set (assemble ?top ?judged)"
    by blast
  from x a3 have n3: "plain_post ''http://a.co/3'' \<notin> set (assemble ?top ?judged)"
    by blast
  from e have "assemble ?top ?judged
      = assemble ?top [\<lparr>j_url = ''http://a.co/1'', j_keep = True, j_reason = ''yes''\<rparr>]"
    by simp
  with n2 n3 show ?thesis
    by (intro conjI)
qed

end
